theory Spec2Isabelle
  imports Main "HOL-Library.Multiset"
begin

section \<open>The wait-for-messages tool: data model\<close>

text \<open>
  The handler \<^verbatim>\<open>waitForMessagesHandler\<close> is embedded as a function of its arguments,
  the module-level cursor variables, the session provider's answer and the sequence of
  things that happen while the handler awaits its promise (timeline notifications and
  timer expiries).  The timestamp of an event is an \<open>int\<close> (integer milliseconds); the
  timestamp read from a token is a \<open>number\<close> (an integer or an infinity, see below).  A
  \<open>string\<close> is the list of the UTF-16 code units of a JavaScript string, for the strings
  whose code units are all below 256: \<open>CHR n\<close> is the code unit \<open>n\<close>.  \<^verbatim>\<open>undefined\<close> and \<^verbatim>\<open>null\<close>
  are \<open>None\<close>.
\<close>

text \<open>A \<^verbatim>\<open>MatrixEvent\<close>, by the accessors the handler calls on it.\<close>

record event =
  getType :: string
  getSender :: "string option"
  getRoomId :: "string option"
  getId :: "string option"
  getTs :: int
  getBody :: "string option"  \<comment> \<open>\<^verbatim>\<open>getContent()?.body\<close>\<close>

record room =
  room_id :: string
  room_name :: string
  room_events :: "event list"  \<comment> \<open>\<^verbatim>\<open>getLiveTimeline().getEvents()\<close>\<close>

record client =
  getUserId :: "string option"
  getRooms :: "room list"

definition getRoom :: "client \<Rightarrow> string \<Rightarrow> room option" where
  "getRoom c rid = find (\<lambda>r. room_id r = rid) (getRooms c)"

definition RoomMessage :: string where
  "RoomMessage = ''m.room.message''"

definition DEFAULT_TIMEOUT_MS :: int where
  "DEFAULT_TIMEOUT_MS = 30000"

definition DEBOUNCE_MS :: int where
  "DEBOUNCE_MS = 500"

record CollectedMessage =
  roomId :: string
  roomName :: string
  sender :: string
  body :: string
  eventId :: string
  timestamp :: int

text \<open>The arguments of one call: \<^verbatim>\<open>{ roomId, timeoutMs, since }\<close>.\<close>

record args =
  arg_roomId :: "string option"
  arg_timeoutMs :: int
  arg_since :: "string option"

text \<open>The module-level variables \<^verbatim>\<open>lastSeenEventId\<close> and \<^verbatim>\<open>lastSeenTimestamp\<close>.\<close>

record cursor_state =
  lastSeenEventId :: "string option"
  lastSeenTimestamp :: int

definition initial_cursor :: cursor_state where
  "initial_cursor = \<lparr>lastSeenEventId = None, lastSeenTimestamp = 0\<rparr>"

subsection \<open>JavaScript truthiness and equality on optional strings\<close>

text \<open>\<^verbatim>\<open>if (s)\<close> on a \<^verbatim>\<open>string | undefined\<close>: false for \<^verbatim>\<open>undefined\<close> and for the empty string.\<close>

definition truthy :: "string option \<Rightarrow> bool" where
  "truthy s = (case s of None \<Rightarrow> False | Some t \<Rightarrow> t \<noteq> [])"

text \<open>\<^verbatim>\<open>s || ""\<close> on a \<^verbatim>\<open>string | undefined\<close>.\<close>

definition or_empty :: "string option \<Rightarrow> string" where
  "or_empty s = (case s of None \<Rightarrow> [] | Some t \<Rightarrow> t)"

text \<open>
  \<^verbatim>\<open>event.getSender() === ownUserId\<close>: the left side is \<^verbatim>\<open>string | undefined\<close>, the
  right side \<^verbatim>\<open>string | null\<close>, and \<^verbatim>\<open>undefined === null\<close> is false.
\<close>

definition is_own :: "string option \<Rightarrow> string option \<Rightarrow> bool" where
  "is_own sndr ownUserId =
     (case sndr of None \<Rightarrow> False
      | Some s \<Rightarrow> (case ownUserId of None \<Rightarrow> False | Some u \<Rightarrow> s = u))"

subsection \<open>The continuation token\<close>

text \<open>\<^verbatim>\<open>since.split("|")\<close>: always at least one part.\<close>

fun split_on :: "char \<Rightarrow> string \<Rightarrow> string list" where
  "split_on c [] = [[]]"
| "split_on c (x # xs) =
     (if x = c then [] # split_on c xs
      else (case split_on c xs of [] \<Rightarrow> [[x]] | p # ps \<Rightarrow> (x # p) # ps))"

text \<open>
  The code units that \<^verbatim>\<open>parseInt\<close> trims from the start of its argument (white space and
  line terminators): U+0009 to U+000D, U+0020, U+00A0, and, beyond the code units a
  \<open>string\<close> can hold, U+1680, U+2000 to U+200A, U+2028, U+2029, U+202F, U+205F, U+3000 and
  U+FEFF.
\<close>

definition is_space :: "char \<Rightarrow> bool" where
  "is_space c =
     (c \<in> set [CHR 0x09, CHR 0x0A, CHR 0x0B, CHR 0x0C, CHR 0x0D, CHR 0x20, CHR 0xA0])"

definition is_digit :: "char \<Rightarrow> bool" where
  "is_digit c = (48 \<le> (of_char c :: nat) \<and> (of_char c :: nat) \<le> 57)"

definition digits_value :: "string \<Rightarrow> int" where
  "digits_value ds = foldl (\<lambda>acc c. 10 * acc + (of_char c - 48)) 0 ds"

text \<open>
  The values \<^verbatim>\<open>sinceTimestamp\<close> can take: an integer, or an infinity when the digits of the
  token denote a number beyond the range of a double.
\<close>

datatype number = Num int | PosInfinity | NegInfinity

text \<open>\<^verbatim>\<open>if (sinceTimestamp)\<close>: false for 0 only (\<^verbatim>\<open>NaN\<close> has become 0 before).\<close>

definition truthy_number :: "number \<Rightarrow> bool" where
  "truthy_number x = (case x of Num n \<Rightarrow> n \<noteq> 0 | PosInfinity \<Rightarrow> True | NegInfinity \<Rightarrow> True)"

text \<open>The number of binary digits of a positive integer.\<close>

function bit_length :: "int \<Rightarrow> nat" where
  "bit_length n = (if n \<le> 0 then 0 else Suc (bit_length (n div 2)))"
  by pat_completeness auto
termination
  by (relation "measure nat") auto

declare bit_length.simps [simp del]

text \<open>
  The double nearest to a non-negative integer \<open>m\<close>, ties to the even significand: exact
  below \<open>2\<^sup>5\<^sup>3\<close>, otherwise \<open>m\<close> rounded to 53 significant binary digits.
\<close>

definition round_to_double :: "int \<Rightarrow> int" where
  "round_to_double m =
     (if m < 2 ^ 53 then m
      else
        (let e = bit_length m - 53;
             q = m div 2 ^ e;
             r = m mod 2 ^ e;
             half = 2 ^ (e - 1)
         in (if r > half \<or> (r = half \<and> odd q) then q + 1 else q) * 2 ^ e))"

text \<open>
  The Number for a sign and a magnitude: the rounded magnitude, or an infinity when it
  reaches \<open>2\<^sup>1\<^sup>0\<^sup>2\<^sup>4\<close>.
\<close>

definition to_number :: "bool \<Rightarrow> int \<Rightarrow> number" where
  "to_number neg m =
     (let v = round_to_double m
      in if v \<ge> 2 ^ 1024 then (if neg then NegInfinity else PosInfinity)
         else Num (if neg then - v else v))"

text \<open>
  \<^verbatim>\<open>parseInt(s, 10)\<close>: leading white space is skipped, one sign is read, then the longest
  run of decimal digits; whatever follows is ignored.  \<open>None\<close> is \<^verbatim>\<open>NaN\<close> (no digit read).
  The value is the Number nearest to the integer the digits denote (for more than 20
  significant digits the language leaves an approximation to the implementation; the
  model rounds correctly, as Node does).
\<close>

definition parseInt :: "string \<Rightarrow> number option" where
  "parseInt s =
     (let t = dropWhile is_space s;
          neg = (case t of [] \<Rightarrow> False | c # _ \<Rightarrow> c = CHR ''-'');
          u = (case t of [] \<Rightarrow> [] | c # r \<Rightarrow> if c = CHR ''-'' \<or> c = CHR ''+'' then r else t);
          ds = takeWhile is_digit u
      in if ds = [] then None else Some (to_number neg (digits_value ds)))"

text \<open>\<^verbatim>\<open>parseInt(parts[1], 10) || 0\<close>: \<^verbatim>\<open>NaN\<close> and 0 both give 0.\<close>

definition parseInt_or_0 :: "string \<Rightarrow> number" where
  "parseInt_or_0 s = (case parseInt s of None \<Rightarrow> Num 0 | Some n \<Rightarrow> n)"

text \<open>
  The block that parses the token, returning \<open>(sinceTimestamp, sinceEventId)\<close>.  The
  fallback to the internal cursor is taken only when \<^verbatim>\<open>since\<close> is falsy.
\<close>

definition parse_since :: "string option \<Rightarrow> cursor_state \<Rightarrow> number \<times> string option" where
  "parse_since since st =
     (if truthy since then
        (case split_on CHR ''|'' (or_empty since) of
           [p0, p1] \<Rightarrow> (parseInt_or_0 p1, Some p0)
         | _ \<Rightarrow> (Num 0, None))
      else if lastSeenTimestamp st \<noteq> 0 then (Num (lastSeenTimestamp st), lastSeenEventId st)
      else (Num 0, None))"

text \<open>
  Decimal text of a number, as a template literal prints an integer of magnitude below
  \<open>10\<^sup>2\<^sup>1\<close>.
\<close>

definition digit_char :: "int \<Rightarrow> char" where
  "digit_char d =
     (if d = 0 then CHR ''0'' else if d = 1 then CHR ''1'' else if d = 2 then CHR ''2''
      else if d = 3 then CHR ''3'' else if d = 4 then CHR ''4'' else if d = 5 then CHR ''5''
      else if d = 6 then CHR ''6'' else if d = 7 then CHR ''7'' else if d = 8 then CHR ''8''
      else CHR ''9'')"

function show_digits :: "int \<Rightarrow> string" where
  "show_digits n =
     (if n < 10 then [digit_char n]
      else show_digits (n div 10) @ [digit_char (n mod 10)])"
  by pat_completeness auto
termination
  by (relation "measure nat") auto

declare show_digits.simps [simp del]

definition show_int :: "int \<Rightarrow> string" where
  "show_int i = (if i < 0 then CHR ''-'' # show_digits (- i) else show_digits i)"

text \<open>\<^verbatim>\<open>`${last.eventId}|${last.timestamp}`\<close>.\<close>

definition encode_cursor :: "string \<Rightarrow> int \<Rightarrow> string" where
  "encode_cursor eid ts = eid @ ''|'' @ show_int ts"

definition updateInternalCursor :: "string \<Rightarrow> int \<Rightarrow> cursor_state \<Rightarrow> cursor_state" where
  "updateInternalCursor eid ts st =
     (if ts > lastSeenTimestamp st \<or> (ts = lastSeenTimestamp st \<and> Some eid \<noteq> lastSeenEventId st)
      then st\<lparr>lastSeenEventId := Some eid, lastSeenTimestamp := ts\<rparr>
      else st)"

subsection \<open>The two eligibility tests\<close>

text \<open>
  The catch-up scan's test (it runs only inside \<^verbatim>\<open>if (sinceTimestamp)\<close>):
  \<^verbatim>\<open>if (ts < sinceTimestamp) continue;
  if (ts === sinceTimestamp && eid === sinceEventId) continue;\<close>
\<close>

definition scan_accepts :: "int \<Rightarrow> string option \<Rightarrow> int \<Rightarrow> string option \<Rightarrow> bool" where
  "scan_accepts ts eid sinceTimestamp sinceEventId =
     (if ts < sinceTimestamp then False
      else if ts = sinceTimestamp \<and> eid = sinceEventId then False
      else True)"

text \<open>
  The live listener's test:
  \<^verbatim>\<open>if (sinceTimestamp && ts < sinceTimestamp) return;
  if (sinceTimestamp && ts === sinceTimestamp && eid === sinceEventId) return;\<close>
\<close>

definition live_accepts :: "int \<Rightarrow> string option \<Rightarrow> int \<Rightarrow> string option \<Rightarrow> bool" where
  "live_accepts ts eid sinceTimestamp sinceEventId =
     (if sinceTimestamp \<noteq> 0 \<and> ts < sinceTimestamp then False
      else if sinceTimestamp \<noteq> 0 \<and> ts = sinceTimestamp \<and> eid = sinceEventId then False
      else True)"

text \<open>
  The same two tests when \<^verbatim>\<open>sinceTimestamp\<close> may be an infinity: \<^verbatim>\<open>ts < Infinity\<close> holds of
  every event, so each is skipped; \<^verbatim>\<open>ts < -Infinity\<close> and \<^verbatim>\<open>ts === -Infinity\<close> hold of none,
  so none is skipped.
\<close>

definition scan_test :: "int \<Rightarrow> string option \<Rightarrow> number \<Rightarrow> string option \<Rightarrow> bool" where
  "scan_test ts eid sinceTimestamp sinceEventId =
     (case sinceTimestamp of
        Num n \<Rightarrow> scan_accepts ts eid n sinceEventId
      | PosInfinity \<Rightarrow> False
      | NegInfinity \<Rightarrow> True)"

definition live_test :: "int \<Rightarrow> string option \<Rightarrow> number \<Rightarrow> string option \<Rightarrow> bool" where
  "live_test ts eid sinceTimestamp sinceEventId =
     (case sinceTimestamp of
        Num n \<Rightarrow> live_accepts ts eid n sinceEventId
      | PosInfinity \<Rightarrow> False
      | NegInfinity \<Rightarrow> True)"

section \<open>The catch-up scan\<close>

text \<open>
  \<^verbatim>\<open>roomId ? [client.getRoom(roomId)].filter(Boolean) : client.getRooms()\<close>
\<close>

definition roomsToScan :: "client \<Rightarrow> string option \<Rightarrow> room list" where
  "roomsToScan c rid =
     (if truthy rid then (case getRoom c (or_empty rid) of None \<Rightarrow> [] | Some r \<Rightarrow> [r])
      else getRooms c)"

text \<open>The object pushed by the scan; \<^verbatim>\<open>room.name || event.getRoomId() || ""\<close> is the room name.\<close>

definition scan_message :: "room \<Rightarrow> event \<Rightarrow> CollectedMessage" where
  "scan_message r e =
     \<lparr>roomId = or_empty (getRoomId e),
      roomName = (if room_name r \<noteq> [] then room_name r else or_empty (getRoomId e)),
      sender = or_empty (getSender e),
      body = or_empty (getBody e),
      eventId = or_empty (getId e),
      timestamp = getTs e\<rparr>"

text \<open>The inner loop \<^verbatim>\<open>for (const event of events)\<close>; \<open>collected\<close> is the array pushed to.\<close>

fun scan_events ::
  "string option \<Rightarrow> number \<Rightarrow> string option \<Rightarrow> room \<Rightarrow> event list \<Rightarrow>
   CollectedMessage list \<Rightarrow> CollectedMessage list" where
  "scan_events ownUserId sinceTimestamp sinceEventId r [] collected = collected"
| "scan_events ownUserId sinceTimestamp sinceEventId r (e # es) collected =
     (if getType e \<noteq> RoomMessage then
        scan_events ownUserId sinceTimestamp sinceEventId r es collected
      else if is_own (getSender e) ownUserId then
        scan_events ownUserId sinceTimestamp sinceEventId r es collected
      else if \<not> scan_test (getTs e) (getId e) sinceTimestamp sinceEventId then
        scan_events ownUserId sinceTimestamp sinceEventId r es collected
      else
        scan_events ownUserId sinceTimestamp sinceEventId r es (collected @ [scan_message r e]))"

text \<open>The outer loop \<^verbatim>\<open>for (const room of roomsToScan)\<close>.\<close>

fun scan_rooms ::
  "string option \<Rightarrow> number \<Rightarrow> string option \<Rightarrow> room list \<Rightarrow>
   CollectedMessage list \<Rightarrow> CollectedMessage list" where
  "scan_rooms ownUserId sinceTimestamp sinceEventId [] collected = collected"
| "scan_rooms ownUserId sinceTimestamp sinceEventId (r # rs) collected =
     scan_rooms ownUserId sinceTimestamp sinceEventId rs
       (scan_events ownUserId sinceTimestamp sinceEventId r (room_events r) collected)"

section \<open>The response\<close>

datatype status = MessagesReceived | Timeout | NoMessages

text \<open>
  One element of the \<^verbatim>\<open>messages\<close> array of the JSON payload.  The source renders the
  timestamp with \<^verbatim>\<open>new Date(m.timestamp).toISOString()\<close>; the model keeps the millisecond
  value that the text denotes.
\<close>

record rendered =
  out_room :: string
  out_roomId :: string
  out_sender :: string
  out_body :: string
  out_eventId :: string
  out_timestamp :: int

record response =
  status :: status
  messageCount :: nat
  messages :: "rendered list"
  since :: "string option"  \<comment> \<open>\<open>None\<close>: the key is absent from the payload\<close>

datatype tool_result = ToolError string | ToolOk response

text \<open>
  \<^verbatim>\<open>toISOString\<close> throws a \<^verbatim>\<open>RangeError\<close> for a time value beyond 8.64e15 milliseconds
  from the epoch in either direction; \<open>None\<close> is that exception.
\<close>

definition toISOString :: "int \<Rightarrow> int option" where
  "toISOString ts = (if \<bar>ts\<bar> \<le> 8640000000000000 then Some ts else None)"

text \<open>One element of \<^verbatim>\<open>messages.map((m) => ({ ... }))\<close>, given the rendered timestamp.\<close>

definition render_message :: "CollectedMessage \<Rightarrow> int \<Rightarrow> rendered" where
  "render_message m t =
     \<lparr>out_room = roomName m, out_roomId = roomId m, out_sender = sender m,
      out_body = body m, out_eventId = eventId m, out_timestamp = t\<rparr>"

text \<open>The whole \<^verbatim>\<open>map\<close>, stopping at the first exception.\<close>

fun render_all :: "CollectedMessage list \<Rightarrow> rendered list option" where
  "render_all [] = Some []"
| "render_all (m # ms) =
     (case toISOString (timestamp m) of
        None \<Rightarrow> None
      | Some t \<Rightarrow>
          (case render_all ms of
             None \<Rightarrow> None
           | Some rs \<Rightarrow> Some (render_message m t # rs)))"

text \<open>The text of the \<^verbatim>\<open>catch\<close> block's payload.\<close>

definition error_text :: "string \<Rightarrow> string" where
  "error_text msg = ''Error: Failed to wait for messages - '' @ msg"

definition invalid_time :: string where
  "invalid_time = ''Invalid time value''"

section \<open>The live listener\<close>

text \<open>
  The promise executor's state: the shared \<^verbatim>\<open>collected\<close> array, the variable
  \<^verbatim>\<open>debounceTimer\<close>, the timers this call has scheduled and that are still pending (handle,
  callback, delay), whether \<^verbatim>\<open>onEvent\<close> is registered on the client, and the value the
  promise was resolved with.
\<close>

datatype callback = DebounceCallback | TimeoutCallback

record live_state =
  collected :: "CollectedMessage list"
  debounceTimer :: "nat option"
  timeoutHandle :: nat
  timers :: "(nat \<times> callback \<times> int) list"
  next_handle :: nat
  subscribed :: bool
  resolved :: "(CollectedMessage list \<times> bool) option"

definition setTimeout :: "callback \<Rightarrow> int \<Rightarrow> live_state \<Rightarrow> nat \<times> live_state" where
  "setTimeout cb delay L =
     (next_handle L,
      L\<lparr>timers := timers L @ [(next_handle L, cb, delay)], next_handle := Suc (next_handle L)\<rparr>)"

definition clearTimeout :: "nat \<Rightarrow> live_state \<Rightarrow> live_state" where
  "clearTimeout h L = L\<lparr>timers := filter (\<lambda>t. fst t \<noteq> h) (timers L)\<rparr>"

definition cleanup :: "live_state \<Rightarrow> live_state" where
  "cleanup L =
     (let L1 = L\<lparr>subscribed := False\<rparr>;
          L2 = clearTimeout (timeoutHandle L1) L1
      in case debounceTimer L2 of None \<Rightarrow> L2 | Some h \<Rightarrow> clearTimeout h L2)"

text \<open>Resolving a promise a second time has no effect.\<close>

definition resolve :: "CollectedMessage list \<times> bool \<Rightarrow> live_state \<Rightarrow> live_state" where
  "resolve v L = (if resolved L = None then L\<lparr>resolved := Some v\<rparr> else L)"

text \<open>
  The object pushed by \<^verbatim>\<open>onEvent\<close>; the room is looked up by the event's room id,
  \<^verbatim>\<open>room?.name || evtRoomId || ""\<close> is the room name.
\<close>

definition live_message :: "client \<Rightarrow> event \<Rightarrow> CollectedMessage" where
  "live_message c e =
     (let evtRoomId = getRoomId e;
          r = (if truthy evtRoomId then getRoom c (or_empty evtRoomId) else None)
      in \<lparr>roomId = or_empty evtRoomId,
          roomName = (case r of
                        None \<Rightarrow> or_empty evtRoomId
                      | Some r' \<Rightarrow> if room_name r' \<noteq> [] then room_name r' else or_empty evtRoomId),
          sender = or_empty (getSender e),
          body = or_empty (getBody e),
          eventId = or_empty (getId e),
          timestamp = getTs e\<rparr>)"

definition onEvent ::
  "client \<Rightarrow> string option \<Rightarrow> number \<Rightarrow> string option \<Rightarrow> event \<Rightarrow> live_state \<Rightarrow> live_state" where
  "onEvent c rid sinceTimestamp sinceEventId e L =
     (if getType e \<noteq> RoomMessage then L
      else if is_own (getSender e) (getUserId c) then L
      else if truthy rid \<and> getRoomId e \<noteq> rid then L
      else if \<not> live_test (getTs e) (getId e) sinceTimestamp sinceEventId then L
      else
        (let L1 = L\<lparr>collected := collected L @ [live_message c e]\<rparr>;
             L2 = (case debounceTimer L1 of None \<Rightarrow> L1 | Some h \<Rightarrow> clearTimeout h L1);
             (h, L3) = setTimeout DebounceCallback DEBOUNCE_MS L2
         in L3\<lparr>debounceTimer := Some h\<rparr>))"

text \<open>
  The executor body: schedule the timeout, then subscribe.  \<open>collected\<close> is the array
  left by the catch-up scan (empty whenever this point is reached).
\<close>

definition start_listening :: "CollectedMessage list \<Rightarrow> int \<Rightarrow> live_state" where
  "start_listening coll timeout =
     (let L0 = \<lparr>collected = coll, debounceTimer = None, timeoutHandle = 0, timers = [],
                next_handle = 0, subscribed = False, resolved = None\<rparr>;
          (h, L1) = setTimeout TimeoutCallback timeout L0
      in L1\<lparr>timeoutHandle := h, subscribed := True\<rparr>)"

text \<open>
  What can happen while the handler awaits the promise: the client emits a timeline event,
  or a timer expires.  A timer that is no longer pending does not fire; a notification
  reaches \<^verbatim>\<open>onEvent\<close> only while it is registered.  Durations are not modelled: any
  interleaving of the two kinds is a possible run.
\<close>

datatype occurrence = Timeline event | TimerFires nat

definition fire :: "nat \<Rightarrow> live_state \<Rightarrow> live_state" where
  "fire h L =
     (case map_of (timers L) h of
        None \<Rightarrow> L
      | Some (cb, delay) \<Rightarrow>
          (let L1 = L\<lparr>timers := filter (\<lambda>t. fst t \<noteq> h) (timers L)\<rparr>;
               L2 = cleanup L1
           in case cb of
                DebounceCallback \<Rightarrow> resolve (collected L2, False) L2
              | TimeoutCallback \<Rightarrow> resolve (collected L2, True) L2))"

definition step ::
  "client \<Rightarrow> string option \<Rightarrow> number \<Rightarrow> string option \<Rightarrow> occurrence \<Rightarrow> live_state \<Rightarrow> live_state" where
  "step c rid sinceTimestamp sinceEventId x L =
     (case x of
        Timeline e \<Rightarrow> if subscribed L then onEvent c rid sinceTimestamp sinceEventId e L else L
      | TimerFires h \<Rightarrow> fire h L)"

fun run ::
  "client \<Rightarrow> string option \<Rightarrow> number \<Rightarrow> string option \<Rightarrow> live_state \<Rightarrow> occurrence list \<Rightarrow> live_state" where
  "run c rid sinceTimestamp sinceEventId L [] = L"
| "run c rid sinceTimestamp sinceEventId L (x # xs) =
     run c rid sinceTimestamp sinceEventId (step c rid sinceTimestamp sinceEventId x L) xs"

section \<open>The handler\<close>

text \<open>
  What a call leaves behind: its result (\<open>None\<close> while the promise is still pending at the
  end of the given occurrences), the module-level cursor, the listener state (\<open>None\<close> when
  the listener was never set up) and whether the \<^verbatim>\<open>catch\<close> block evicted the client.
\<close>

record outcome =
  result :: "tool_result option"
  cursor :: cursor_state
  live :: "live_state option"
  evicted :: bool

definition failed :: "string \<Rightarrow> cursor_state \<Rightarrow> live_state option \<Rightarrow> outcome" where
  "failed msg st L =
     \<lparr>result = Some (ToolError (error_text msg)), cursor = st, live = L, evicted = True\<rparr>"

text \<open>The early return of the catch-up branch (\<open>coll\<close> is not empty there).\<close>

definition catch_up_return :: "CollectedMessage list \<Rightarrow> cursor_state \<Rightarrow> outcome" where
  "catch_up_return coll st =
     (let sorted = sort_key timestamp coll;
          lst = last sorted;
          st' = updateInternalCursor (eventId lst) (timestamp lst) st;
          nextSince = encode_cursor (eventId lst) (timestamp lst)
      in case render_all sorted of
           None \<Rightarrow> failed invalid_time st' None
         | Some ms \<Rightarrow>
             \<lparr>result = Some (ToolOk \<lparr>status = MessagesReceived, messageCount = length sorted,
                                      messages = ms, since = Some nextSince\<rparr>),
              cursor = st', live = None, evicted = False\<rparr>)"

text \<open>The code after \<^verbatim>\<open>await\<close>, given the value the promise resolved with.\<close>

definition live_return ::
  "string option \<Rightarrow> cursor_state \<Rightarrow> live_state \<Rightarrow> CollectedMessage list \<times> bool \<Rightarrow> outcome" where
  "live_return snc st L res =
     (let msgs = fst res; timedOut = snd res;
          st' = (if msgs \<noteq> [] then updateInternalCursor (eventId (last msgs)) (timestamp (last msgs)) st
                 else st);
          nextSince = (if msgs \<noteq> [] then Some (encode_cursor (eventId (last msgs)) (timestamp (last msgs)))
                       else if truthy snc then snc
                       else None)
      in if msgs = [] then
           \<lparr>result = Some (ToolOk \<lparr>status = (if timedOut then Timeout else NoMessages),
                                    messageCount = 0, messages = [],
                                    since = (if truthy nextSince then nextSince else None)\<rparr>),
            cursor = st', live = Some L, evicted = False\<rparr>
         else
           (case render_all msgs of
              None \<Rightarrow> failed invalid_time st' (Some L)
            | Some ms \<Rightarrow>
                \<lparr>result = Some (ToolOk \<lparr>status = MessagesReceived, messageCount = length msgs,
                                         messages = ms, since = nextSince\<rparr>),
                 cursor = st', live = Some L, evicted = False\<rparr>))"

text \<open>
  \<open>session\<close> is what \<^verbatim>\<open>createConfiguredMatrixClient\<close> gives: a client, or the message of the
  error it throws.  \<open>occs\<close> is what happens from the moment the listener is set up.
\<close>

definition waitForMessagesHandler ::
  "args \<Rightarrow> cursor_state \<Rightarrow> string + client \<Rightarrow> occurrence list \<Rightarrow> outcome" where
  "waitForMessagesHandler a st session occs =
     (let timeout = max (arg_timeoutMs a) 1000;
          sinceTimestamp = fst (parse_since (arg_since a) st);
          sinceEventId = snd (parse_since (arg_since a) st)
      in case session of
           Inl msg \<Rightarrow> failed msg st None
         | Inr c \<Rightarrow>
             (let coll = (if truthy_number sinceTimestamp
                          then scan_rooms (getUserId c) sinceTimestamp sinceEventId
                                 (roomsToScan c (arg_roomId a)) []
                          else [])
              in if truthy_number sinceTimestamp \<and> coll \<noteq> [] then catch_up_return coll st
                 else
                   (let L = run c (arg_roomId a) sinceTimestamp sinceEventId
                              (start_listening coll timeout) occs
                    in case resolved L of
                         None \<Rightarrow> \<lparr>result = None, cursor = st, live = Some L, evicted = False\<rparr>
                       | Some res \<Rightarrow> live_return (arg_since a) st L res)))"

section \<open>Notions of the specification\<close>

text \<open>
  The comparison rule as the specification writes it, for a candidate event \<open>(eid, ts)\<close>
  and a cursor \<open>(cid, cts)\<close>.
\<close>

definition eligible :: "string option \<Rightarrow> int \<Rightarrow> string option \<Rightarrow> int \<Rightarrow> bool" where
  "eligible eid ts cid cts = (ts > cts \<or> (ts = cts \<and> eid \<noteq> cid))"



text \<open>
  The cursor's total order of the specification: by timestamp, ties broken by the event
  id (ids compared as JavaScript compares strings, code unit by code unit).
\<close>

fun id_le :: "string \<Rightarrow> string \<Rightarrow> bool" where
  "id_le [] ys = True"
| "id_le (x # xs) [] = False"
| "id_le (x # xs) (y # ys) =
     ((of_char x :: nat) < of_char y \<or> (x = y \<and> id_le xs ys))"

definition cursor_le :: "int \<times> string \<Rightarrow> int \<times> string \<Rightarrow> bool" where
  "cursor_le p q = (fst p < fst q \<or> (fst p = fst q \<and> id_le (snd p) (snd q)))"

text \<open>
  "\<open>tok\<close> encodes the maximum (timestamp, eventId) pair among the messages \<open>ms\<close>", in the
  words of the specification.
\<close>

definition encodes_maximum :: "string \<Rightarrow> rendered list \<Rightarrow> bool" where
  "encodes_maximum tok ms =
     (\<exists>m \<in> set ms.
        tok = encode_cursor (out_eventId m) (out_timestamp m) \<and>
        (\<forall>m' \<in> set ms.
           cursor_le (out_timestamp m', out_eventId m') (out_timestamp m, out_eventId m)))"

section \<open>Auxiliary notions for the proofs\<close>

text \<open>The conditions under which the scan pushes an event.\<close>

definition scan_pushes :: "string option \<Rightarrow> number \<Rightarrow> string option \<Rightarrow> event \<Rightarrow> bool" where
  "scan_pushes ownUserId sinceTimestamp sinceEventId e =
     (getType e = RoomMessage \<and> \<not> is_own (getSender e) ownUserId \<and>
      scan_test (getTs e) (getId e) sinceTimestamp sinceEventId)"

text \<open>
  What holds of the listener's state at every moment: every pending timer is the timeout
  timer or the timer that \<^verbatim>\<open>debounceTimer\<close> points to; a debounce timer exists only once
  something was collected; while the promise is pending, the listener is registered and
  the timeout timer is pending; once it is resolved, nothing is left registered.
\<close>

definition live_inv :: "live_state \<Rightarrow> bool" where
  "live_inv L =
     ((\<forall>t \<in> set (timers L).
         (fst t = timeoutHandle L \<and> fst (snd t) = TimeoutCallback) \<or>
         (debounceTimer L = Some (fst t) \<and> fst (snd t) = DebounceCallback)) \<and>
      timeoutHandle L < next_handle L \<and>
      (\<forall>h. debounceTimer L = Some h \<longrightarrow> h \<noteq> timeoutHandle L \<and> collected L \<noteq> []) \<and>
      (resolved L = None \<longrightarrow>
         subscribed L \<and> (\<exists>d. (timeoutHandle L, TimeoutCallback, d) \<in> set (timers L))) \<and>
      (\<forall>v. resolved L = Some v \<longrightarrow>
         \<not> subscribed L \<and> timers L = [] \<and> fst v = collected L \<and>
         (\<not> snd v \<longrightarrow> collected L \<noteq> [])))"

text \<open>
  The array \<^verbatim>\<open>collected\<close> as the catch-up branch of a call leaves it (empty when the
  branch is not entered), and the listener's state after the occurrences \<open>occs\<close>.
\<close>

definition catch_up_scan :: "args \<Rightarrow> cursor_state \<Rightarrow> client \<Rightarrow> CollectedMessage list" where
  "catch_up_scan a st c =
     (if truthy_number (fst (parse_since (arg_since a) st))
      then scan_rooms (getUserId c) (fst (parse_since (arg_since a) st))
             (snd (parse_since (arg_since a) st)) (roomsToScan c (arg_roomId a)) []
      else [])"

definition listen :: "args \<Rightarrow> cursor_state \<Rightarrow> client \<Rightarrow> occurrence list \<Rightarrow> live_state" where
  "listen a st c occs =
     run c (arg_roomId a) (fst (parse_since (arg_since a) st))
       (snd (parse_since (arg_since a) st))
       (start_listening [] (max (arg_timeoutMs a) 1000)) occs"



text \<open>The client with the buffered timeline of every room replaced.\<close>

definition with_timelines :: "(room \<Rightarrow> event list) \<Rightarrow> client \<Rightarrow> client" where
  "with_timelines f c = c\<lparr>getRooms := map (\<lambda>r. r\<lparr>room_events := f r\<rparr>) (getRooms c)\<rparr>"

section \<open>Concrete inputs\<close>

text \<open>
  A room message in room \<open>!r\<close> with the given id, sender and timestamp; the client of user
  \<open>@me\<close> with the single room \<open>!r\<close> holding the given timeline; a call watching all rooms
  with the given token.
\<close>

definition message_event :: "string \<Rightarrow> string \<Rightarrow> int \<Rightarrow> event" where
  "message_event i s t =
     \<lparr>getType = ''m.room.message'', getSender = Some s, getRoomId = Some ''!r'',
      getId = Some i, getTs = t, getBody = Some ''hi''\<rparr>"

definition one_room_client :: "event list \<Rightarrow> client" where
  "one_room_client es =
     \<lparr>getUserId = Some ''@me'',
      getRooms = [\<lparr>room_id = ''!r'', room_name = ''R'', room_events = es\<rparr>]\<rparr>"

text \<open>What \<open>message_event i ''@u'' t\<close> is rendered as in a response.\<close>

definition rendered_event :: "string \<Rightarrow> int \<Rightarrow> rendered" where
  "rendered_event i t =
     \<lparr>out_room = ''R'', out_roomId = ''!r'', out_sender = ''@u'', out_body = ''hi'',
      out_eventId = i, out_timestamp = t\<rparr>"

definition call_with :: "string option \<Rightarrow> args" where
  "call_with tok = \<lparr>arg_roomId = None, arg_timeoutMs = 1000, arg_since = tok\<rparr>"

section \<open>The scan loops as filters\<close>

lemma scan_test_Num [simp]: "scan_test ts eid (Num n) sid = scan_accepts ts eid n sid"
  by (simp add: scan_test_def)

lemma live_test_Num [simp]: "live_test ts eid (Num n) sid = live_accepts ts eid n sid"
  by (simp add: live_test_def)

lemma scan_events_eq:
  "scan_events own sts sid r es coll =
     coll @ map (scan_message r) (filter (scan_pushes own sts sid) es)"
  by (induction es arbitrary: coll) (simp_all add: scan_pushes_def)

lemma scan_rooms_eq:
  "scan_rooms own sts sid rs coll =
     coll @ concat (map (\<lambda>r. map (scan_message r) (filter (scan_pushes own sts sid) (room_events r))) rs)"
  by (induction rs arbitrary: coll) (simp_all add: scan_events_eq)

section \<open>The listener's invariant\<close>

lemma live_inv_start: "live_inv (start_listening coll t)"
  by (simp add: live_inv_def start_listening_def setTimeout_def)

lemma live_inv_onEvent:
  assumes "live_inv L" "subscribed L"
  shows "live_inv (onEvent c rid sts sid e L)"
  using assms
  by (auto simp add: live_inv_def onEvent_def setTimeout_def clearTimeout_def Let_def split: option.splits)

lemma cleanup_timers:
  assumes "live_inv L"
  shows "timers (cleanup (L\<lparr>timers := filter (\<lambda>t. fst t \<noteq> h) (timers L)\<rparr>)) = []"
  using assms
  by (auto simp add: live_inv_def cleanup_def clearTimeout_def Let_def filter_empty_conv split: option.splits)

lemma live_inv_fire:
  assumes "live_inv L"
  shows "live_inv (fire h L)"
proof (cases "map_of (timers L) h")
  case None
  then show ?thesis using assms by (simp add: fire_def)
next
  case (Some p)
  obtain cb d where p: "p = (cb, d)" by (cases p)
  let ?L1 = "L\<lparr>timers := filter (\<lambda>t. fst t \<noteq> h) (timers L)\<rparr>"
  have mem: "(h, cb, d) \<in> set (timers L)"
    using Some p by (simp add: map_of_SomeD)
  have unres: "resolved L = None"
    using assms mem by (cases "resolved L") (auto simp add: live_inv_def)
  have empty: "timers (cleanup ?L1) = []"
    using assms by (rule cleanup_timers)
  have keep: "collected (cleanup ?L1) = collected L" "debounceTimer (cleanup ?L1) = debounceTimer L"
    "timeoutHandle (cleanup ?L1) = timeoutHandle L" "next_handle (cleanup ?L1) = next_handle L"
    "\<not> subscribed (cleanup ?L1)" "resolved (cleanup ?L1) = None"
    using unres by (simp_all add: cleanup_def clearTimeout_def Let_def split: option.splits)
  have deb: "cb = DebounceCallback \<Longrightarrow> collected L \<noteq> []"
    using assms mem by (fastforce simp add: live_inv_def)
  show ?thesis
    using assms Some p empty keep deb
    by (cases cb) (simp_all add: fire_def Let_def resolve_def live_inv_def)
qed

lemma live_inv_step:
  assumes "live_inv L"
  shows "live_inv (step c rid sts sid x L)"
  using assms by (cases x) (simp_all add: step_def live_inv_onEvent live_inv_fire)

lemma live_inv_run:
  assumes "live_inv L"
  shows "live_inv (run c rid sts sid L xs)"
  using assms by (induction xs arbitrary: L) (simp_all add: live_inv_step)

lemma step_settled:
  assumes "live_inv L" "resolved L \<noteq> None"
  shows "step c rid sts sid x L = L"
  using assms by (cases x) (auto simp add: step_def fire_def live_inv_def)

lemma run_settled:
  assumes "live_inv L" "resolved L \<noteq> None"
  shows "run c rid sts sid L xs = L"
  using assms by (induction xs arbitrary: L) (simp_all add: step_settled)

lemma run_append:
  "run c rid sts sid L (xs @ ys) = run c rid sts sid (run c rid sts sid L xs) ys"
  by (induction xs arbitrary: L) simp_all

lemma fire_timeout:
  assumes "live_inv L" "resolved L = None"
  shows "resolved (fire (timeoutHandle L) L) = Some (collected L, True)"
proof -
  obtain d where mem: "(timeoutHandle L, TimeoutCallback, d) \<in> set (timers L)"
    using assms by (auto simp add: live_inv_def)
  then obtain p where look: "map_of (timers L) (timeoutHandle L) = Some p"
    by (cases "map_of (timers L) (timeoutHandle L)") (force simp add: map_of_eq_None_iff)+
  obtain cb d' where p: "p = (cb, d')" by (cases p)
  have "(timeoutHandle L, cb, d') \<in> set (timers L)"
    using look p by (simp add: map_of_SomeD)
  then have cb: "cb = TimeoutCallback"
    using assms by (fastforce simp add: live_inv_def)
  show ?thesis
    using look p cb assms(2)
    by (simp add: fire_def Let_def resolve_def cleanup_def clearTimeout_def split: option.splits)
qed

section \<open>The shape of a call\<close>

lemma render_all_Some:
  "render_all ms = Some rs \<Longrightarrow> rs = map (\<lambda>m. render_message m (timestamp m)) ms"
  by (induction ms arbitrary: rs) (auto simp add: toISOString_def split: option.splits if_splits)

lemma render_all_None:
  "render_all ms = None \<longleftrightarrow> (\<exists>m \<in> set ms. toISOString (timestamp m) = None)"
  by (induction ms) (auto split: option.splits)

lemma handler_Inl:
  "waitForMessagesHandler a st (Inl msg) occs = failed msg st None"
  by (simp add: waitForMessagesHandler_def)

lemma handler_Inr:
  "waitForMessagesHandler a st (Inr c) occs =
     (if catch_up_scan a st c \<noteq> [] then catch_up_return (catch_up_scan a st c) st
      else (case resolved (listen a st c occs) of
              None \<Rightarrow> \<lparr>result = None, cursor = st, live = Some (listen a st c occs), evicted = False\<rparr>
            | Some res \<Rightarrow> live_return (arg_since a) st (listen a st c occs) res))"
  unfolding waitForMessagesHandler_def catch_up_scan_def listen_def Let_def
  by (cases "truthy_number (fst (parse_since (arg_since a) st))") (auto split: option.splits)

lemma live_inv_listen: "live_inv (listen a st c occs)"
  by (simp add: listen_def live_inv_run live_inv_start)

lemma live_return_live: "live (live_return snc st L res) = Some L"
  by (simp add: live_return_def failed_def Let_def split: option.splits)

lemma catch_up_return_live: "live (catch_up_return found st) = None"
  by (simp add: catch_up_return_def failed_def Let_def split: option.splits)

lemma handler_live:
  assumes "live (waitForMessagesHandler a st session occs) = Some L"
  obtains c where "session = Inr c" "catch_up_scan a st c = []" "L = listen a st c occs"
proof (cases session)
  case (Inl msg)
  then show ?thesis using assms by (simp add: handler_Inl failed_def)
next
  case (Inr c)
  then show ?thesis
    using assms that [of c]
    by (auto simp add: handler_Inr catch_up_return_live live_return_live split: if_splits option.splits)
qed

lemma handler_pending_iff:
  assumes "live (waitForMessagesHandler a st session occs) = Some L"
  shows "result (waitForMessagesHandler a st session occs) = None \<longleftrightarrow> resolved L = None"
proof -
  obtain c where c: "session = Inr c" "catch_up_scan a st c = []" "L = listen a st c occs"
    using assms by (rule handler_live)
  show ?thesis
    using c by (auto simp add: handler_Inr live_return_def failed_def Let_def split: option.splits)
qed

lemma listen_append:
  "listen a st c (xs @ ys) =
     run c (arg_roomId a) (fst (parse_since (arg_since a) st))
       (snd (parse_since (arg_since a) st)) (listen a st c xs) ys"
  by (simp add: listen_def run_append)

lemma render_all_nonempty:
  assumes "render_all ms = Some rs" "ms \<noteq> []"
  shows "rs \<noteq> []"
  using assms by (auto dest: render_all_Some)

lemma live_return_result:
  "result (live_return snc st L (msgs, timedOut)) =
     (if msgs = [] then
        Some (ToolOk \<lparr>status = (if timedOut then Timeout else NoMessages), messageCount = 0,
                      messages = [], since = (if truthy snc then snc else None)\<rparr>)
      else
        (case render_all msgs of
           None \<Rightarrow> Some (ToolError (error_text invalid_time))
         | Some ms \<Rightarrow>
             Some (ToolOk \<lparr>status = MessagesReceived, messageCount = length msgs, messages = ms,
                           since = Some (encode_cursor (eventId (last msgs)) (timestamp (last msgs)))\<rparr>)))"
  by (simp add: live_return_def failed_def Let_def split: option.splits)

lemma catch_up_return_result:
  "result (catch_up_return found st) =
     (case render_all (sort_key timestamp found) of
        None \<Rightarrow> Some (ToolError (error_text invalid_time))
      | Some ms \<Rightarrow>
          Some (ToolOk \<lparr>status = MessagesReceived, messageCount = length found, messages = ms,
                        since = Some (encode_cursor (eventId (last (sort_key timestamp found)))
                                        (timestamp (last (sort_key timestamp found))))\<rparr>))"
  by (simp add: catch_up_return_def failed_def Let_def split: option.splits)

lemma handler_result:
  "result (waitForMessagesHandler a st (Inr c) occs) =
     (if catch_up_scan a st c \<noteq> [] then result (catch_up_return (catch_up_scan a st c) st)
      else (case resolved (listen a st c occs) of
              None \<Rightarrow> None
            | Some res \<Rightarrow> result (live_return (arg_since a) st (listen a st c occs) res)))"
  by (simp add: handler_Inr split: option.splits)

lemma listen_resolved:
  assumes "resolved (listen a st c occs) = Some (msgs, timedOut)"
  shows "msgs = collected (listen a st c occs) \<and> (\<not> timedOut \<longrightarrow> msgs \<noteq> [])"
  using assms live_inv_listen [of a st c occs] by (auto simp add: live_inv_def)

lemma sort_key_Nil_iff [simp]: "sort_key f xs = [] \<longleftrightarrow> xs = []"
  by (cases xs) simp_all

lemma handler_ok_cases:
  assumes "result (waitForMessagesHandler a st session occs) = Some (ToolOk resp)"
  obtains
    (caught_up) c where
      "session = Inr c" "catch_up_scan a st c \<noteq> []"
      "live (waitForMessagesHandler a st session occs) = None"
      "resp = \<lparr>status = MessagesReceived, messageCount = length (catch_up_scan a st c),
               messages = map (\<lambda>m. render_message m (timestamp m))
                            (sort_key timestamp (catch_up_scan a st c)),
               since = Some (encode_cursor
                               (eventId (last (sort_key timestamp (catch_up_scan a st c))))
                               (timestamp (last (sort_key timestamp (catch_up_scan a st c)))))\<rparr>"
  | (timed_out) c where
      "session = Inr c" "catch_up_scan a st c = []"
      "live (waitForMessagesHandler a st session occs) = Some (listen a st c occs)"
      "resolved (listen a st c occs) = Some ([], True)"
      "resp = \<lparr>status = Timeout, messageCount = 0, messages = [],
               since = (if truthy (arg_since a) then arg_since a else None)\<rparr>"
  | (received) c msgs timedOut where
      "session = Inr c" "catch_up_scan a st c = []"
      "live (waitForMessagesHandler a st session occs) = Some (listen a st c occs)"
      "resolved (listen a st c occs) = Some (msgs, timedOut)"
      "msgs = collected (listen a st c occs)" "msgs \<noteq> []"
      "resp = \<lparr>status = MessagesReceived, messageCount = length msgs,
               messages = map (\<lambda>m. render_message m (timestamp m)) msgs,
               since = Some (encode_cursor (eventId (last msgs)) (timestamp (last msgs)))\<rparr>"
proof -
  obtain c where c: "session = Inr c"
    using assms by (cases session) (auto simp add: handler_Inl failed_def)
  show ?thesis
  proof (cases "catch_up_scan a st c = []")
    case False
    have "live (waitForMessagesHandler a st session occs) = None"
      using c False by (simp add: handler_Inr catch_up_return_live)
    moreover obtain ms where ms: "render_all (sort_key timestamp (catch_up_scan a st c)) = Some ms"
      using assms c False
      by (cases "render_all (sort_key timestamp (catch_up_scan a st c))")
         (auto simp add: handler_result catch_up_return_result)
    ultimately show ?thesis
      using assms c False render_all_Some [OF ms] caught_up [of c]
      by (simp add: handler_result catch_up_return_result)
  next
    case True
    have lv: "live (waitForMessagesHandler a st session occs) = Some (listen a st c occs)"
      using c True by (simp add: handler_Inr live_return_live split: option.splits)
    obtain msgs timedOut where res: "resolved (listen a st c occs) = Some (msgs, timedOut)"
      using assms c True by (cases "resolved (listen a st c occs)") (auto simp add: handler_result)
    have inv: "msgs = collected (listen a st c occs)" "\<not> timedOut \<Longrightarrow> msgs \<noteq> []"
      using listen_resolved [OF res] by blast+
    show ?thesis
    proof (cases "msgs = []")
      case True
      with inv(2) have "timedOut" by blast
      then show ?thesis
        using assms c \<open>catch_up_scan a st c = []\<close> lv res True timed_out [of c]
        by (simp add: handler_result live_return_result)
    next
      case False
      obtain ms where ms: "render_all msgs = Some ms"
        using assms c \<open>catch_up_scan a st c = []\<close> res False
        by (cases "render_all msgs") (auto simp add: handler_result live_return_result)
      show ?thesis
        using assms c \<open>catch_up_scan a st c = []\<close> lv res False inv(1) render_all_Some [OF ms] ms
          received [of c msgs timedOut]
        by (simp add: handler_result live_return_result)
    qed
  qed
qed


lemma fire_collected: "collected (fire h L) = collected L"
  by (simp add: fire_def cleanup_def clearTimeout_def resolve_def Let_def
           split: option.splits callback.splits)

lemma listen_timeout_fires:
  assumes "resolved (listen a st c pre) = None"
  shows "resolved (listen a st c (pre @ TimerFires (timeoutHandle (listen a st c pre)) # post)) =
           Some (collected (listen a st c pre), True)"
proof -
  let ?L = "listen a st c pre"
  let ?L' = "fire (timeoutHandle ?L) ?L"
  have inv: "live_inv ?L" by (rule live_inv_listen)
  have res: "resolved ?L' = Some (collected ?L, True)"
    using inv assms by (rule fire_timeout)
  have "live_inv ?L'" using inv by (rule live_inv_fire)
  then have "run c (arg_roomId a) (fst (parse_since (arg_since a) st))
               (snd (parse_since (arg_since a) st)) ?L' post = ?L'"
    using res by (simp add: run_settled)
  then show ?thesis
    using res by (simp add: listen_append step_def)
qed

section \<open>Where collected messages come from\<close>

lemma onEvent_collected:
  "collected (onEvent c rid sts sid e L) = collected L \<or>
   (\<not> is_own (getSender e) (getUserId c) \<and>
    collected (onEvent c rid sts sid e L) = collected L @ [live_message c e])"
  by (simp add: onEvent_def setTimeout_def clearTimeout_def Let_def split: option.splits)

lemma step_collected:
  assumes "m \<in> set (collected (step c rid sts sid x L))"
  shows "m \<in> set (collected L) \<or>
         (\<exists>e. x = Timeline e \<and> \<not> is_own (getSender e) (getUserId c) \<and> m = live_message c e)"
proof (cases x)
  case (Timeline e)
  then show ?thesis
    using assms onEvent_collected [of c rid sts sid e L]
    by (auto simp add: step_def split: if_splits)
next
  case (TimerFires h)
  then show ?thesis
    using assms by (simp add: step_def fire_collected)
qed

lemma run_collected:
  assumes "m \<in> set (collected (run c rid sts sid L xs))"
  shows "m \<in> set (collected L) \<or>
         (\<exists>e. Timeline e \<in> set xs \<and> \<not> is_own (getSender e) (getUserId c) \<and>
              m = live_message c e)"
  using assms
proof (induction xs arbitrary: L)
  case Nil
  then show ?case by simp
next
  case (Cons x xs)
  from Cons.prems have "m \<in> set (collected (run c rid sts sid (step c rid sts sid x L) xs))"
    by simp
  from Cons.IH [OF this] show ?case
    using step_collected [of m c rid sts sid x L] by auto
qed

lemma listen_collected:
  assumes "m \<in> set (collected (listen a st c occs))"
  shows "\<exists>e. Timeline e \<in> set occs \<and> \<not> is_own (getSender e) (getUserId c) \<and>
             m = live_message c e"
  using run_collected [OF assms [unfolded listen_def]]
  by (simp add: start_listening_def setTimeout_def)

lemma find_SomeD: "find P xs = Some x \<Longrightarrow> x \<in> set xs"
  by (induction xs) (auto split: if_splits)

lemma roomsToScan_subset: "set (roomsToScan c rid) \<subseteq> set (getRooms c)"
  by (auto simp add: roomsToScan_def getRoom_def split: option.splits
           dest: find_SomeD [OF sym])

lemma out_sender_scan [simp]:
  "out_sender (render_message (scan_message r e) t) = or_empty (getSender e)"
  by (simp add: render_message_def scan_message_def)

lemma out_sender_live [simp]:
  "out_sender (render_message (live_message c e) t) = or_empty (getSender e)"
  by (simp add: render_message_def live_message_def Let_def)

lemma catch_up_scan_from:
  assumes "m \<in> set (catch_up_scan a st c)"
  shows "\<exists>r \<in> set (getRooms c). \<exists>e \<in> set (room_events r).
           \<not> is_own (getSender e) (getUserId c) \<and> m = scan_message r e"
  using assms roomsToScan_subset [of c "arg_roomId a"]
  by (auto simp add: catch_up_scan_def scan_rooms_eq scan_pushes_def split: if_splits)

lemma not_own_sender:
  assumes "\<not> is_own sndr (Some u)" "u \<noteq> []"
  shows "or_empty sndr \<noteq> u"
  using assms by (cases sndr) (auto simp add: is_own_def or_empty_def)

lemma sorted_last_max:
  assumes "sorted (map f xs)" "x \<in> set xs"
  shows "f x \<le> f (last xs)"
  using assms by (induction xs) auto

lemma out_fields [simp]:
  "out_eventId (render_message m t) = eventId m"
  "out_timestamp (render_message m t) = t"
  by (simp_all add: render_message_def)

section \<open>Calls without a cursor\<close>










lemma getUserId_with_timelines [simp]: "getUserId (with_timelines f c) = getUserId c"
  by (simp add: with_timelines_def)



lemma catch_up_scan_nonempty_iff:
  "catch_up_scan a st c \<noteq> [] \<longleftrightarrow>
     truthy_number (fst (parse_since (arg_since a) st)) \<and>
     (\<exists>r \<in> set (roomsToScan c (arg_roomId a)). \<exists>e \<in> set (room_events r).
        scan_pushes (getUserId c) (fst (parse_since (arg_since a) st))
          (snd (parse_since (arg_since a) st)) e)"
  by (auto simp add: catch_up_scan_def scan_rooms_eq filter_empty_conv)

section \<open>Eligibility\<close>

text \<open>
  C1, as stated, fails: with a cursor whose timestamp is 0 the live listener's guards
  \<^verbatim>\<open>sinceTimestamp && ...\<close> are off, so it accepts the very event the cursor names, which
  the rule of the specification rejects.
\<close>

theorem C1_counterexample:
  "live_accepts 0 (Some ''$e'') 0 (Some ''$e'') \<and> \<not> eligible (Some ''$e'') 0 (Some ''$e'') 0"
  by (simp add: live_accepts_def eligible_def)

text \<open>
  C1 (amended): for every candidate event \<open>(eid, ts)\<close> and every cursor \<open>(cid, cts)\<close> with
  a non-zero timestamp, the test of the catch-up scan and the test of the live listener both
  accept the event if and only if \<open>ts > cts\<close>, or \<open>ts = cts\<close> and \<open>eid \<noteq> cid\<close>.  A cursor
  timestamp of 0 stands for "no cursor": the live listener then accepts every event.
\<close>

theorem C1_eligibility:
  "(cts \<noteq> 0 \<longrightarrow>
      scan_accepts ts eid cts cid = eligible eid ts cid cts \<and>
      live_accepts ts eid cts cid = eligible eid ts cid cts) \<and>
   live_accepts ts eid 0 cid"
  by (auto simp add: scan_accepts_def live_accepts_def eligible_def)

theorem C1_eligibility_witness:
  "(1000::int) \<noteq> 0 \<and>
   scan_accepts 1000 (Some ''$b'') 1000 (Some ''$a'') \<and>
   live_accepts 1000 (Some ''$b'') 1000 (Some ''$a'') \<and>
   \<not> scan_accepts 1000 (Some ''$a'') 1000 (Some ''$a'') \<and>
   \<not> live_accepts 999 (Some ''$b'') 1000 (Some ''$a'')"
  using C1_eligibility [of 1000 1000 "Some ''$b''" "Some ''$a''"]
        C1_eligibility [of 1000 1000 "Some ''$a''" "Some ''$a''"]
        C1_eligibility [of 1000 999 "Some ''$b''" "Some ''$a''"]
  by (simp add: eligible_def)

section \<open>The next cursor\<close>

text \<open>
  C2, as stated, fails on both paths.  The catch-up branch sorts by timestamp only and
  takes the last element: of two messages with the same timestamp the one scanned last
  gives the cursor, whatever its id.  The live branch does not sort: the cursor is that of
  the message that arrived last, which need not have the greatest timestamp.
\<close>

theorem C2_counterexample:
  "result (waitForMessagesHandler (call_with (Some ''$0|4'')) initial_cursor
     (Inr (one_room_client [message_event ''$b'' ''@u'' 5, message_event ''$a'' ''@u'' 5])) []) =
     Some (ToolOk \<lparr>status = MessagesReceived, messageCount = 2,
                   messages = [rendered_event ''$b'' 5, rendered_event ''$a'' 5],
                   since = Some ''$a|5''\<rparr>) \<and>
   \<not> encodes_maximum ''$a|5'' [rendered_event ''$b'' 5, rendered_event ''$a'' 5] \<and>
   result (waitForMessagesHandler (call_with None) initial_cursor (Inr (one_room_client []))
     [Timeline (message_event ''$1'' ''@u'' 10), Timeline (message_event ''$2'' ''@u'' 7),
      TimerFires 2]) =
     Some (ToolOk \<lparr>status = MessagesReceived, messageCount = 2,
                   messages = [rendered_event ''$1'' 10, rendered_event ''$2'' 7],
                   since = Some ''$2|7''\<rparr>) \<and>
   \<not> encodes_maximum ''$2|7'' [rendered_event ''$1'' 10, rendered_event ''$2'' 7]"
  by code_simp

text \<open>
  C2 (amended): whenever a call returns with status \<open>messages_received\<close>, the \<open>since\<close>
  token of the response encodes the event id and the timestamp of the last message of the
  returned array; on the catch-up path that timestamp is the greatest timestamp of the
  batch (the event id does not break ties).
\<close>

theorem C2_next_cursor_is_last_message:
  assumes "result (waitForMessagesHandler a st session occs) = Some (ToolOk resp)"
    and "status resp = MessagesReceived"
  shows "messages resp \<noteq> [] \<and>
         since resp = Some (encode_cursor (out_eventId (last (messages resp)))
                              (out_timestamp (last (messages resp)))) \<and>
         (live (waitForMessagesHandler a st session occs) = None \<longrightarrow>
            (\<forall>m \<in> set (messages resp). out_timestamp m \<le> out_timestamp (last (messages resp))))"
  using assms(1)
proof (cases rule: handler_ok_cases)
  case (caught_up c)
  let ?sorted = "sort_key timestamp (catch_up_scan a st c)"
  have ne: "?sorted \<noteq> []" using caught_up(2) by simp
  have "timestamp x \<le> timestamp (last ?sorted)" if "x \<in> set ?sorted" for x
    using sorted_last_max [of timestamp ?sorted x] that by (simp add: sorted_sort_key)
  then show ?thesis
    using caught_up ne by (simp add: last_map del: set_sort)
next
  case (timed_out c)
  then show ?thesis using assms(2) by simp
next
  case (received c msgs timedOut)
  then show ?thesis by (simp add: last_map)
qed

theorem C2_next_cursor_is_last_message_witness:
  "result (waitForMessagesHandler (call_with (Some ''$0|4'')) initial_cursor
     (Inr (one_room_client [message_event ''$2'' ''@u'' 6, message_event ''$1'' ''@u'' 5])) []) =
     Some (ToolOk \<lparr>status = MessagesReceived, messageCount = 2,
                   messages = [rendered_event ''$1'' 5, rendered_event ''$2'' 6],
                   since = Some ''$2|6''\<rparr>) \<and>
   live (waitForMessagesHandler (call_with (Some ''$0|4'')) initial_cursor
     (Inr (one_room_client [message_event ''$2'' ''@u'' 6, message_event ''$1'' ''@u'' 5])) []) =
     None \<and>
   Some ''$2|6'' = Some (encode_cursor ''$2'' 6) \<and>
   out_timestamp (rendered_event ''$1'' 5) \<le> out_timestamp (rendered_event ''$2'' 6)"
proof -
  have run:
    "result (waitForMessagesHandler (call_with (Some ''$0|4'')) initial_cursor
       (Inr (one_room_client [message_event ''$2'' ''@u'' 6, message_event ''$1'' ''@u'' 5])) []) =
       Some (ToolOk \<lparr>status = MessagesReceived, messageCount = 2,
                     messages = [rendered_event ''$1'' 5, rendered_event ''$2'' 6],
                     since = Some ''$2|6''\<rparr>)"
    by code_simp
  have quiet:
    "live (waitForMessagesHandler (call_with (Some ''$0|4'')) initial_cursor
       (Inr (one_room_client [message_event ''$2'' ''@u'' 6, message_event ''$1'' ''@u'' 5])) []) =
       None"
    by code_simp
  show ?thesis
    using run quiet C2_next_cursor_is_last_message [OF run]
    by (simp add: rendered_event_def)
qed

section \<open>Ordering of a batch\<close>

text \<open>
  C3, as stated, fails: a catch-up batch can hold two messages with the same timestamp, so
  it is not strictly ascending; and a live batch is in arrival order, which need not be
  ascending.
\<close>

theorem C3_counterexample:
  "result (waitForMessagesHandler (call_with (Some ''$0|4'')) initial_cursor
     (Inr (one_room_client [message_event ''$b'' ''@u'' 5, message_event ''$a'' ''@u'' 5])) []) =
     Some (ToolOk \<lparr>status = MessagesReceived, messageCount = 2,
                   messages = [rendered_event ''$b'' 5, rendered_event ''$a'' 5],
                   since = Some ''$a|5''\<rparr>) \<and>
   \<not> sorted_wrt (<) (map out_timestamp [rendered_event ''$b'' 5, rendered_event ''$a'' 5]) \<and>
   result (waitForMessagesHandler (call_with None) initial_cursor (Inr (one_room_client []))
     [Timeline (message_event ''$1'' ''@u'' 10), Timeline (message_event ''$2'' ''@u'' 7),
      TimerFires 2]) =
     Some (ToolOk \<lparr>status = MessagesReceived, messageCount = 2,
                   messages = [rendered_event ''$1'' 10, rendered_event ''$2'' 7],
                   since = Some ''$2|7''\<rparr>) \<and>
   \<not> sorted (map out_timestamp [rendered_event ''$1'' 10, rendered_event ''$2'' 7])"
  by code_simp

text \<open>
  C3 (amended): every \<open>messages\<close> array returned from the catch-up scan is sorted ascending
  by timestamp, equal timestamps allowed.
\<close>

theorem C3_catch_up_sorted:
  assumes "result (waitForMessagesHandler a st session occs) = Some (ToolOk resp)"
    and "live (waitForMessagesHandler a st session occs) = None"
  shows "sorted (map out_timestamp (messages resp))"
  using assms(1)
proof (cases rule: handler_ok_cases)
  case (caught_up c)
  have "out_timestamp \<circ> (\<lambda>m. render_message m (timestamp m)) = timestamp"
    by (simp add: fun_eq_iff)
  then show ?thesis
    using caught_up by (simp add: sorted_sort_key)
next
  case (timed_out c)
  then show ?thesis by simp
next
  case (received c msgs timedOut)
  then show ?thesis using assms(2) by simp
qed

theorem C3_catch_up_sorted_witness:
  "result (waitForMessagesHandler (call_with (Some ''$0|4'')) initial_cursor
     (Inr (one_room_client [message_event ''$2'' ''@u'' 6, message_event ''$1'' ''@u'' 5])) []) =
     Some (ToolOk \<lparr>status = MessagesReceived, messageCount = 2,
                   messages = [rendered_event ''$1'' 5, rendered_event ''$2'' 6],
                   since = Some ''$2|6''\<rparr>) \<and>
   live (waitForMessagesHandler (call_with (Some ''$0|4'')) initial_cursor
     (Inr (one_room_client [message_event ''$2'' ''@u'' 6, message_event ''$1'' ''@u'' 5])) []) =
     None \<and>
   sorted (map out_timestamp [rendered_event ''$1'' 5, rendered_event ''$2'' 6])"
proof -
  have run:
    "result (waitForMessagesHandler (call_with (Some ''$0|4'')) initial_cursor
       (Inr (one_room_client [message_event ''$2'' ''@u'' 6, message_event ''$1'' ''@u'' 5])) []) =
       Some (ToolOk \<lparr>status = MessagesReceived, messageCount = 2,
                     messages = [rendered_event ''$1'' 5, rendered_event ''$2'' 6],
                     since = Some ''$2|6''\<rparr>)"
    by code_simp
  have quiet:
    "live (waitForMessagesHandler (call_with (Some ''$0|4'')) initial_cursor
       (Inr (one_room_client [message_event ''$2'' ''@u'' 6, message_event ''$1'' ''@u'' 5])) []) =
       None"
    by code_simp
  show ?thesis
    using run quiet C3_catch_up_sorted [OF run quiet]
    by simp
qed

section \<open>The token of an empty poll\<close>

text \<open>
  C4, as stated, fails for the empty string, which is a supplied token (a malformed one)
  that the source's test \<^verbatim>\<open>if (since)\<close> takes for an absent one: the response omits \<open>since\<close>.
\<close>

theorem C4_counterexample:
  "result (waitForMessagesHandler (call_with (Some [])) initial_cursor
     (Inr (one_room_client [])) [TimerFires 0]) =
     Some (ToolOk \<lparr>status = Timeout, messageCount = 0, messages = [], since = None\<rparr>)"
  by code_simp

text \<open>
  C4 (amended): if a call produces zero messages and the caller supplied a non-empty token,
  the \<open>since\<close> field of the response is that token, unchanged; if it produces zero messages
  and no token, or the empty string, was supplied, the response has no \<open>since\<close> field.
\<close>

theorem C4_empty_poll_echoes_token:
  assumes "result (waitForMessagesHandler a st session occs) = Some (ToolOk resp)"
    and "messages resp = []"
  shows "(\<forall>tok. arg_since a = Some tok \<and> tok \<noteq> [] \<longrightarrow> since resp = Some tok) \<and>
         (arg_since a = None \<or> arg_since a = Some [] \<longrightarrow> since resp = None)"
  using assms by (cases rule: handler_ok_cases) (auto simp add: truthy_def)

theorem C4_empty_poll_echoes_token_witness:
  "result (waitForMessagesHandler (call_with (Some ''$e|5'')) initial_cursor
     (Inr (one_room_client [])) [TimerFires 0]) =
     Some (ToolOk \<lparr>status = Timeout, messageCount = 0, messages = [], since = Some ''$e|5''\<rparr>) \<and>
   since \<lparr>status = Timeout, messageCount = 0, messages = [], since = Some ''$e|5''\<rparr> = Some ''$e|5'' \<and>
   result (waitForMessagesHandler (call_with None) initial_cursor
     (Inr (one_room_client [])) [TimerFires 0]) =
     Some (ToolOk \<lparr>status = Timeout, messageCount = 0, messages = [], since = None\<rparr>) \<and>
   since \<lparr>status = Timeout, messageCount = 0, messages = [], since = None\<rparr> = None"
proof -
  have with_token:
    "result (waitForMessagesHandler (call_with (Some ''$e|5'')) initial_cursor
       (Inr (one_room_client [])) [TimerFires 0]) =
       Some (ToolOk \<lparr>status = Timeout, messageCount = 0, messages = [],
                     since = Some ''$e|5''\<rparr>)"
    by code_simp
  have without_token:
    "result (waitForMessagesHandler (call_with None) initial_cursor
       (Inr (one_room_client [])) [TimerFires 0]) =
       Some (ToolOk \<lparr>status = Timeout, messageCount = 0, messages = [], since = None\<rparr>)"
    by code_simp
  have tok: "arg_since (call_with (Some ''$e|5'')) = Some ''$e|5'' \<and> ''$e|5'' \<noteq> []"
    "arg_since (call_with None) = None"
    by (simp_all add: call_with_def)
  show ?thesis
    using with_token without_token tok
      C4_empty_poll_echoes_token [OF with_token]
      C4_empty_poll_echoes_token [OF without_token]
    by simp
qed

section \<open>The timeout settle\<close>

text \<open>
  C5, as stated, fails: a message that arrived less than the debounce delay before the
  timeout is in \<^verbatim>\<open>collected\<close> when the timeout fires, no debounce having settled, and the
  call then reports \<open>messages_received\<close> with it; or, when the timestamp of that message
  cannot be rendered, the error result.
\<close>

theorem C5_counterexample:
  "result (waitForMessagesHandler (call_with None) initial_cursor (Inr (one_room_client []))
     [Timeline (message_event ''$1'' ''@u'' 10)]) = None \<and>
   result (waitForMessagesHandler (call_with None) initial_cursor (Inr (one_room_client []))
     [Timeline (message_event ''$1'' ''@u'' 10), TimerFires 0]) =
     Some (ToolOk \<lparr>status = MessagesReceived, messageCount = 1,
                   messages = [rendered_event ''$1'' 10], since = Some ''$1|10''\<rparr>) \<and>
   result (waitForMessagesHandler (call_with None) initial_cursor (Inr (one_room_client []))
     [Timeline (message_event ''$1'' ''@u'' 8640000000000001)]) = None \<and>
   result (waitForMessagesHandler (call_with None) initial_cursor (Inr (one_room_client []))
     [Timeline (message_event ''$1'' ''@u'' 8640000000000001), TimerFires 0]) =
     Some (ToolError ''Error: Failed to wait for messages - Invalid time value'')"
  by code_simp

text \<open>
  C5 (amended): if the overall timeout fires before any debounce settle (the call is still
  pending after the occurrences \<open>pre\<close>, then the timeout timer fires), the call resolves
  with what has been collected until then: with status \<open>timeout\<close> and an empty batch when
  nothing was collected; and, when something was collected and every collected timestamp
  can be rendered as a date, with status \<open>messages_received\<close> and the collected messages.
\<close>

theorem C5_timeout_settle:
  assumes "result (waitForMessagesHandler a st session pre) = None"
    and "live (waitForMessagesHandler a st session pre) = Some L"
  shows
    "(collected L = [] \<longrightarrow>
        result (waitForMessagesHandler a st session (pre @ TimerFires (timeoutHandle L) # post)) =
          Some (ToolOk \<lparr>status = Timeout, messageCount = 0, messages = [],
                        since = (if truthy (arg_since a) then arg_since a else None)\<rparr>)) \<and>
     (collected L \<noteq> [] \<longrightarrow>
        (\<forall>ms. render_all (collected L) = Some ms \<longrightarrow>
           result (waitForMessagesHandler a st session
                     (pre @ TimerFires (timeoutHandle L) # post)) =
             Some (ToolOk \<lparr>status = MessagesReceived, messageCount = length (collected L),
                           messages = ms,
                           since = Some (encode_cursor (eventId (last (collected L)))
                                           (timestamp (last (collected L))))\<rparr>)))"
proof -
  obtain c where c: "session = Inr c" "catch_up_scan a st c = []" "L = listen a st c pre"
    using assms(2) by (rule handler_live)
  have "resolved L = None"
    using assms handler_pending_iff [OF assms(2)] by simp
  then have "resolved (listen a st c (pre @ TimerFires (timeoutHandle L) # post)) =
               Some (collected L, True)"
    using c(3) listen_timeout_fires [of a st c pre post] by simp
  then show ?thesis
    using c by (auto simp add: handler_result live_return_result split: option.splits)
qed

theorem C5_timeout_settle_witness:
  "result (waitForMessagesHandler (call_with None) initial_cursor (Inr (one_room_client [])) []) =
     None \<and>
   live (waitForMessagesHandler (call_with None) initial_cursor (Inr (one_room_client [])) []) =
     Some \<lparr>collected = [], debounceTimer = None, timeoutHandle = 0,
            timers = [(0, TimeoutCallback, 1000)], next_handle = 1, subscribed = True,
            resolved = None\<rparr> \<and>
   result (waitForMessagesHandler (call_with None) initial_cursor (Inr (one_room_client []))
     [TimerFires 0]) =
     Some (ToolOk \<lparr>status = Timeout, messageCount = 0, messages = [], since = None\<rparr>) \<and>
   result (waitForMessagesHandler (call_with None) initial_cursor (Inr (one_room_client []))
     [Timeline (message_event ''$1'' ''@u'' 10)]) = None \<and>
   live (waitForMessagesHandler (call_with None) initial_cursor (Inr (one_room_client []))
     [Timeline (message_event ''$1'' ''@u'' 10)]) =
     Some \<lparr>collected = [live_message (one_room_client []) (message_event ''$1'' ''@u'' 10)],
            debounceTimer = Some 1, timeoutHandle = 0,
            timers = [(0, TimeoutCallback, 1000), (1, DebounceCallback, 500)],
            next_handle = 2, subscribed = True, resolved = None\<rparr> \<and>
   result (waitForMessagesHandler (call_with None) initial_cursor (Inr (one_room_client []))
     [Timeline (message_event ''$1'' ''@u'' 10), TimerFires 0]) =
     Some (ToolOk \<lparr>status = MessagesReceived, messageCount = 1,
                   messages = [rendered_event ''$1'' 10], since = Some ''$1|10''\<rparr>)"
proof -
  have pending:
    "result (waitForMessagesHandler (call_with None) initial_cursor
       (Inr (one_room_client [])) []) = None"
    by code_simp
  have listening:
    "live (waitForMessagesHandler (call_with None) initial_cursor (Inr (one_room_client [])) []) =
       Some \<lparr>collected = [], debounceTimer = None, timeoutHandle = 0,
              timers = [(0, TimeoutCallback, 1000)], next_handle = 1, subscribed = True,
              resolved = None\<rparr>"
    by code_simp
  have pending':
    "result (waitForMessagesHandler (call_with None) initial_cursor (Inr (one_room_client []))
       [Timeline (message_event ''$1'' ''@u'' 10)]) = None"
    by code_simp
  have listening':
    "live (waitForMessagesHandler (call_with None) initial_cursor (Inr (one_room_client []))
       [Timeline (message_event ''$1'' ''@u'' 10)]) =
       Some \<lparr>collected = [live_message (one_room_client []) (message_event ''$1'' ''@u'' 10)],
              debounceTimer = Some 1, timeoutHandle = 0,
              timers = [(0, TimeoutCallback, 1000), (1, DebounceCallback, 500)],
              next_handle = 2, subscribed = True, resolved = None\<rparr>"
    by code_simp
  have rendered:
    "render_all [live_message (one_room_client []) (message_event ''$1'' ''@u'' 10)] =
       Some [rendered_event ''$1'' 10]"
    by code_simp
  have token:
    "encode_cursor
       (eventId (live_message (one_room_client []) (message_event ''$1'' ''@u'' 10)))
       (timestamp (live_message (one_room_client []) (message_event ''$1'' ''@u'' 10))) =
       ''$1|10''"
    by code_simp
  have empty:
    "result (waitForMessagesHandler (call_with None) initial_cursor (Inr (one_room_client []))
       [TimerFires 0]) =
       Some (ToolOk \<lparr>status = Timeout, messageCount = 0, messages = [], since = None\<rparr>)"
    using C5_timeout_settle [OF pending listening, of "[]"]
    by (simp add: truthy_def call_with_def)
  have some:
    "result (waitForMessagesHandler (call_with None) initial_cursor (Inr (one_room_client []))
       [Timeline (message_event ''$1'' ''@u'' 10), TimerFires 0]) =
       Some (ToolOk \<lparr>status = MessagesReceived, messageCount = 1,
                     messages = [rendered_event ''$1'' 10], since = Some ''$1|10''\<rparr>)"
    using C5_timeout_settle [OF pending' listening', of "[]"] rendered token
    by simp
  show ?thesis
    using pending listening empty pending' listening' some by blast
qed

section \<open>Self-echo suppression\<close>

text \<open>
  C6: every message of a returned \<open>messages\<close> array was built from an event, of a scanned
  timeline or notified to the listener, whose sender is not the session's own user id; an
  event whose sender is the own user id is thus never surfaced, on either path.  In
  particular no returned message carries the own user id as its sender.
\<close>

theorem C6_no_self_echo:
  assumes "result (waitForMessagesHandler a st (Inr c) occs) = Some (ToolOk resp)"
    and "m \<in> set (messages resp)"
  shows "(\<exists>e. \<not> is_own (getSender e) (getUserId c) \<and>
              ((\<exists>r \<in> set (getRooms c). e \<in> set (room_events r) \<and>
                   m = render_message (scan_message r e) (getTs e)) \<or>
               (Timeline e \<in> set occs \<and> m = render_message (live_message c e) (getTs e)))) \<and>
         (\<forall>u. getUserId c = Some u \<and> u \<noteq> [] \<longrightarrow> out_sender m \<noteq> u)"
proof -
  have source:
    "\<exists>e. \<not> is_own (getSender e) (getUserId c) \<and>
         ((\<exists>r \<in> set (getRooms c). e \<in> set (room_events r) \<and>
              m = render_message (scan_message r e) (getTs e)) \<or>
          (Timeline e \<in> set occs \<and> m = render_message (live_message c e) (getTs e)))"
    using assms(1)
  proof (cases rule: handler_ok_cases)
    case (caught_up c')
    then obtain cm where cm: "cm \<in> set (catch_up_scan a st c)"
      "m = render_message cm (timestamp cm)"
      using assms(2) by auto
    from catch_up_scan_from [OF cm(1)] obtain r e where
      "r \<in> set (getRooms c)" "e \<in> set (room_events r)"
      "\<not> is_own (getSender e) (getUserId c)" "cm = scan_message r e"
      by blast
    then show ?thesis
      using cm(2) by (auto simp add: scan_message_def)
  next
    case (timed_out c')
    then show ?thesis using assms(2) by simp
  next
    case (received c' msgs timedOut)
    then obtain cm where cm: "cm \<in> set (collected (listen a st c occs))"
      "m = render_message cm (timestamp cm)"
      using assms(2) by auto
    from listen_collected [OF cm(1)] obtain e where
      "Timeline e \<in> set occs" "\<not> is_own (getSender e) (getUserId c)" "cm = live_message c e"
      by blast
    then show ?thesis
      using cm(2) by (auto simp add: live_message_def Let_def)
  qed
  have "out_sender m \<noteq> u" if u: "getUserId c = Some u" "u \<noteq> []" for u
  proof -
    from source obtain e where e: "\<not> is_own (getSender e) (getUserId c)"
      and from_e: "(\<exists>r \<in> set (getRooms c). e \<in> set (room_events r) \<and>
                      m = render_message (scan_message r e) (getTs e)) \<or>
                   (Timeline e \<in> set occs \<and> m = render_message (live_message c e) (getTs e))"
      by blast
    from from_e have "out_sender m = or_empty (getSender e)"
      by auto
    then show ?thesis
      using e u not_own_sender [of "getSender e" u] by simp
  qed
  with source show ?thesis by blast
qed

theorem C6_no_self_echo_witness:
  "result (waitForMessagesHandler (call_with (Some ''$0|4'')) initial_cursor
     (Inr (one_room_client [message_event ''$1'' ''@me'' 5, message_event ''$2'' ''@u'' 6])) []) =
     Some (ToolOk \<lparr>status = MessagesReceived, messageCount = 1,
                   messages = [rendered_event ''$2'' 6], since = Some ''$2|6''\<rparr>) \<and>
   out_sender (rendered_event ''$2'' 6) \<noteq> ''@me''"
proof -
  have run:
    "result (waitForMessagesHandler (call_with (Some ''$0|4'')) initial_cursor
       (Inr (one_room_client [message_event ''$1'' ''@me'' 5, message_event ''$2'' ''@u'' 6])) []) =
       Some (ToolOk \<lparr>status = MessagesReceived, messageCount = 1,
                     messages = [rendered_event ''$2'' 6], since = Some ''$2|6''\<rparr>)"
    by code_simp
  have own: "getUserId (one_room_client [message_event ''$1'' ''@me'' 5,
               message_event ''$2'' ''@u'' 6]) = Some ''@me'' \<and> ''@me'' \<noteq> []"
    by (simp add: one_room_client_def)
  show ?thesis
    using run own C6_no_self_echo [OF run, of "rendered_event ''$2'' 6"]
    by simp
qed

section \<open>Malformed tokens\<close>




section \<open>The catch-up short circuit\<close>




section \<open>Cleanup on settle\<close>

text \<open>
  C9: once a call has returned, whatever happened and in whatever order (debounce settle or
  timeout settle), the listener it registered is unregistered and none of the timers it
  scheduled is pending; this holds at every later moment too, since \<open>occs\<close> may go on after
  the settle.  A call that returned from the catch-up branch registered nothing.
\<close>

theorem C9_nothing_left_registered:
  assumes "result (waitForMessagesHandler a st session occs) \<noteq> None"
  shows "case live (waitForMessagesHandler a st session occs) of
           None \<Rightarrow> True
         | Some L \<Rightarrow> \<not> subscribed L \<and> timers L = []"
proof (cases "live (waitForMessagesHandler a st session occs)")
  case None
  then show ?thesis by simp
next
  case (Some L)
  obtain c where "L = listen a st c occs"
    using Some by (rule handler_live)
  then have "live_inv L" by (simp add: live_inv_listen)
  moreover have "resolved L \<noteq> None"
    using assms handler_pending_iff [OF Some] by simp
  ultimately show ?thesis
    using Some by (auto simp add: live_inv_def)
qed

theorem C9_nothing_left_registered_witness:
  "result (waitForMessagesHandler (call_with None) initial_cursor (Inr (one_room_client []))
     [Timeline (message_event ''$1'' ''@u'' 10), TimerFires 1]) \<noteq> None \<and>
   (case live (waitForMessagesHandler (call_with None) initial_cursor (Inr (one_room_client []))
      [Timeline (message_event ''$1'' ''@u'' 10), TimerFires 1]) of
      None \<Rightarrow> False
    | Some L \<Rightarrow> \<not> subscribed L \<and> timers L = [] \<and> resolved L \<noteq> None) \<and>
   result (waitForMessagesHandler (call_with None) initial_cursor (Inr (one_room_client []))
     [TimerFires 0]) \<noteq> None \<and>
   (case live (waitForMessagesHandler (call_with None) initial_cursor (Inr (one_room_client []))
      [TimerFires 0]) of
      None \<Rightarrow> False
    | Some L \<Rightarrow> \<not> subscribed L \<and> timers L = [] \<and> resolved L \<noteq> None)"
proof -
  have debounced:
    "result (waitForMessagesHandler (call_with None) initial_cursor (Inr (one_room_client []))
       [Timeline (message_event ''$1'' ''@u'' 10), TimerFires 1]) \<noteq> None"
    by code_simp
  have engaged:
    "case live (waitForMessagesHandler (call_with None) initial_cursor (Inr (one_room_client []))
       [Timeline (message_event ''$1'' ''@u'' 10), TimerFires 1]) of
       None \<Rightarrow> False
     | Some L \<Rightarrow> resolved L \<noteq> None"
    by code_simp
  have timed_out:
    "result (waitForMessagesHandler (call_with None) initial_cursor (Inr (one_room_client []))
       [TimerFires 0]) \<noteq> None"
    by code_simp
  have engaged':
    "case live (waitForMessagesHandler (call_with None) initial_cursor (Inr (one_room_client []))
       [TimerFires 0]) of
       None \<Rightarrow> False
     | Some L \<Rightarrow> resolved L \<noteq> None"
    by code_simp
  have first:
    "case live (waitForMessagesHandler (call_with None) initial_cursor (Inr (one_room_client []))
       [Timeline (message_event ''$1'' ''@u'' 10), TimerFires 1]) of
       None \<Rightarrow> False
     | Some L \<Rightarrow> \<not> subscribed L \<and> timers L = [] \<and> resolved L \<noteq> None"
    using engaged C9_nothing_left_registered [OF debounced]
    by (auto split: option.splits)
  have second:
    "case live (waitForMessagesHandler (call_with None) initial_cursor (Inr (one_room_client []))
       [TimerFires 0]) of
       None \<Rightarrow> False
     | Some L \<Rightarrow> \<not> subscribed L \<and> timers L = [] \<and> resolved L \<noteq> None"
    using engaged' C9_nothing_left_registered [OF timed_out]
    by (auto split: option.splits)
  show ?thesis
    using debounced first timed_out second by blast
qed

section \<open>The statuses a call can report\<close>

text \<open>
  C10: the promise of the live phase is resolved by the debounce timer, and then at least
  one message has been collected, or by the timeout timer.  Hence a call that returns no
  message reports \<open>timeout\<close>, and no call ever reports \<open>no_messages\<close>.
\<close>

theorem C10_no_messages_never_produced:
  "(\<forall>L msgs. live (waitForMessagesHandler a st session occs) = Some L \<and>
              resolved L = Some (msgs, False) \<longrightarrow> msgs \<noteq> []) \<and>
   (\<forall>resp. result (waitForMessagesHandler a st session occs) = Some (ToolOk resp) \<longrightarrow>
            status resp \<noteq> NoMessages \<and> (messages resp = [] \<longrightarrow> status resp = Timeout))"
proof -
  have debounce: "msgs \<noteq> []"
    if lv: "live (waitForMessagesHandler a st session occs) = Some L"
      and rs: "resolved L = Some (msgs, False)" for L msgs
  proof -
    obtain c where "L = listen a st c occs"
      using lv by (rule handler_live)
    with rs have "resolved (listen a st c occs) = Some (msgs, False)" by simp
    from listen_resolved [OF this] show ?thesis by blast
  qed
  have statuses: "status resp \<noteq> NoMessages \<and> (messages resp = [] \<longrightarrow> status resp = Timeout)"
    if "result (waitForMessagesHandler a st session occs) = Some (ToolOk resp)" for resp
    using that by (cases rule: handler_ok_cases) simp_all
  show ?thesis
    using debounce statuses by blast
qed

theorem C10_no_messages_never_produced_witness:
  "result (waitForMessagesHandler (call_with None) initial_cursor (Inr (one_room_client []))
     [TimerFires 0]) =
     Some (ToolOk \<lparr>status = Timeout, messageCount = 0, messages = [], since = None\<rparr>) \<and>
   status \<lparr>status = Timeout, messageCount = 0, messages = [], since = None\<rparr> = Timeout \<and>
   live (waitForMessagesHandler (call_with None) initial_cursor (Inr (one_room_client []))
     [Timeline (message_event ''$1'' ''@u'' 10), TimerFires 1]) =
     Some \<lparr>collected = [live_message (one_room_client []) (message_event ''$1'' ''@u'' 10)],
            debounceTimer = Some 1, timeoutHandle = 0, timers = [], next_handle = 2,
            subscribed = False,
            resolved = Some ([live_message (one_room_client [])
                                (message_event ''$1'' ''@u'' 10)], False)\<rparr> \<and>
   [live_message (one_room_client []) (message_event ''$1'' ''@u'' 10)] \<noteq> []"
proof -
  have timed_out:
    "result (waitForMessagesHandler (call_with None) initial_cursor (Inr (one_room_client []))
       [TimerFires 0]) =
       Some (ToolOk \<lparr>status = Timeout, messageCount = 0, messages = [], since = None\<rparr>)"
    by code_simp
  have debounced:
    "live (waitForMessagesHandler (call_with None) initial_cursor (Inr (one_room_client []))
       [Timeline (message_event ''$1'' ''@u'' 10), TimerFires 1]) =
       Some \<lparr>collected = [live_message (one_room_client []) (message_event ''$1'' ''@u'' 10)],
              debounceTimer = Some 1, timeoutHandle = 0, timers = [], next_handle = 2,
              subscribed = False,
              resolved = Some ([live_message (one_room_client [])
                                  (message_event ''$1'' ''@u'' 10)], False)\<rparr>"
    by code_simp
  note first =
    C10_no_messages_never_produced [of "call_with None" initial_cursor
      "Inr (one_room_client [])" "[TimerFires 0]", THEN conjunct2, rule_format, OF timed_out]
  note second =
    C10_no_messages_never_produced [of "call_with None" initial_cursor
      "Inr (one_room_client [])" "[Timeline (message_event ''$1'' ''@u'' 10), TimerFires 1]",
      THEN conjunct1, rule_format, OF conjI, OF debounced]
  from first have "status \<lparr>status = Timeout, messageCount = 0, messages = [], since = None\<rparr> = Timeout"
    by simp
  moreover from second
  have "[live_message (one_room_client []) (message_event ''$1'' ''@u'' 10)] \<noteq> []"
    by simp
  ultimately show ?thesis
    using timed_out debounced by blast
qed

end
